theory Spec2Isabelle
  imports Main "HOL-Library.Word" "HOL-Library.Signed_Division"
begin

section \<open>Line index (package index)\<close>

text \<open>
  The index keeps the whole input as a byte slice and a table of line-start offsets.
  A byte is a \<^typ>\<open>char\<close> (eight bits). The offsets are Go \<open>uint64\<close> values; every
  offset the code records is \<open>i+1\<close> for a position \<open>i\<close> of the data, and a Go slice is
  never longer than the largest \<open>int\<close>, so the conversion \<open>uint64(i+1)\<close> is exact and the
  table is modelled as a list of naturals. The line number passed to \<open>GetLine\<close> is a Go
  \<open>int\<close> and may be negative: it is an \<^typ>\<open>int\<close> here.
\<close>

type_synonym byte = char

definition LF :: byte where
  "LF = CHR 0x0A"

definition CR :: byte where
  "CR = CHR 0x0D"

text \<open>
  The two sentinel errors of the package, the three wrapped failures of the calls into
  the mmap and io libraries, and the run-time panic of an out-of-range index or slice
  expression.
\<close>

datatype error =
    ErrInvalidLine
  | ErrEmptyFile
  | MmapFailed
  | ReadMmapFailed
  | ReadFailed
  | RuntimePanic

text \<open>
  \<open>reader\<close> records whether an underlying closer is attached (\<open>nil\<close> for in-memory
  data).
\<close>

record Index =
  data :: "byte list"
  offsets :: "nat list"
  reader :: bool
  name :: string

text \<open>
  The scanning loop of \<open>buildOffsets\<close>:
  \<^verbatim>\<open>for i := 0; i < len(idx.data); i++ {
    if idx.data[i] == '\n' && i+1 < len(idx.data) {
        idx.offsets = append(idx.offsets, uint64(i+1)) } }\<close>
\<close>

function scanLoop :: "byte list \<Rightarrow> nat \<Rightarrow> nat list \<Rightarrow> nat list" where
  "scanLoop d i offs =
     (if i < length d
      then scanLoop d (i + 1) (if d ! i = LF \<and> i + 1 < length d then offs @ [i + 1] else offs)
      else offs)"
  by pat_completeness auto
termination
  by (relation "measure (\<lambda>(d, i, offs). length d - i)") auto

declare scanLoop.simps [simp del]

definition buildOffsets :: "Index \<Rightarrow> error + Index" where
  "buildOffsets idx =
     (if length (data idx) = 0 then Inl ErrEmptyFile
      else
        let offs = scanLoop (data idx) 0 (offsets idx @ [0]);
            offs' = (if 1 < length offs \<and> length (data idx) \<le> last offs
                     then butlast offs else offs)
        in Inr (idx\<lparr>offsets := offs'\<rparr>))"

text \<open>
  What the library calls hand back is a parameter of the model: \<open>mmap.Open\<close> followed by
  \<open>ReadAt\<close> either fails at one of the two calls or yields the bytes of the file, and
  \<open>io.ReadAll\<close> either fails or yields the bytes of the stream.
\<close>

datatype mmap_outcome = OpenFails | ReadAtFails | Mapped "byte list"

datatype read_outcome = ReadAllFails | ReadAll "byte list"

definition Open :: "(string \<Rightarrow> mmap_outcome) \<Rightarrow> string \<Rightarrow> error + Index" where
  "Open fs path =
     (case fs path of
        OpenFails \<Rightarrow> Inl MmapFailed
      | ReadAtFails \<Rightarrow> Inl ReadMmapFailed
      | Mapped d \<Rightarrow> buildOffsets \<lparr>data = d, offsets = [], reader = True, name = path\<rparr>)"

definition OpenReader :: "read_outcome \<Rightarrow> string \<Rightarrow> error + Index" where
  "OpenReader r nm =
     (case r of
        ReadAllFails \<Rightarrow> Inl ReadFailed
      | ReadAll d \<Rightarrow> buildOffsets \<lparr>data = d, offsets = [], reader = False, name = nm\<rparr>)"

definition LineCount :: "Index \<Rightarrow> nat" where
  "LineCount idx = length (offsets idx)"

text \<open>
  \<open>idx.data[i]\<close> panics outside the slice; \<open>idx.data[start:end]\<close> panics unless
  \<open>start <= end <= cap\<close>, where the capacity is taken to be the length.
\<close>

definition byteAt :: "byte list \<Rightarrow> nat \<Rightarrow> error + byte" where
  "byteAt d i = (if i < length d then Inr (d ! i) else Inl RuntimePanic)"

definition sliceOf :: "byte list \<Rightarrow> nat \<Rightarrow> nat \<Rightarrow> error + byte list" where
  "sliceOf d s e = (if s \<le> e \<and> e \<le> length d then Inr (take (e - s) (drop s d)) else Inl RuntimePanic)"

text \<open>The end position of line \<open>n\<close> before the carriage-return trim.\<close>

definition lineEnd :: "Index \<Rightarrow> int \<Rightarrow> error + nat" where
  "lineEnd idx n =
     (if n < int (length (offsets idx))
      then (let e = offsets idx ! nat n
            in if 0 < e
               then (case byteAt (data idx) (e - 1) of
                       Inl err \<Rightarrow> Inl err
                     | Inr b \<Rightarrow> Inr (if b = LF then e - 1 else e))
               else Inr e)
      else Inr (length (data idx)))"

definition trimCR :: "Index \<Rightarrow> nat \<Rightarrow> nat \<Rightarrow> error + nat" where
  "trimCR idx start e =
     (if start < e
      then (case byteAt (data idx) (e - 1) of
              Inl err \<Rightarrow> Inl err
            | Inr b \<Rightarrow> Inr (if b = CR then e - 1 else e))
      else Inr e)"

definition GetLine :: "Index \<Rightarrow> int \<Rightarrow> error + byte list" where
  "GetLine idx n =
     (if n < 1 \<or> int (length (offsets idx)) < n then Inl ErrInvalidLine
      else
        let start = offsets idx ! nat (n - 1)
        in case lineEnd idx n of
             Inl err \<Rightarrow> Inl err
           | Inr e \<Rightarrow>
               (case trimCR idx start e of
                  Inl err \<Rightarrow> Inl err
                | Inr e' \<Rightarrow> sliceOf (data idx) start e'))"

definition GetLineString :: "Index \<Rightarrow> int \<Rightarrow> error + string" where
  "GetLineString idx n =
     (case GetLine idx n of
        Inl err \<Rightarrow> Inl err
      | Inr bs \<Rightarrow> Inr bs)"


text \<open>
  What the scan maintains about the table once positions below \<open>i\<close> are done: it starts
  with 0, increases strictly, and every entry is a position of the data, at most \<open>i\<close>,
  that follows a newline byte unless it is 0.
\<close>

definition offsOk :: "byte list \<Rightarrow> nat \<Rightarrow> nat list \<Rightarrow> bool" where
  "offsOk d i offs \<longleftrightarrow>
     offs \<noteq> [] \<and> hd offs = 0 \<and> sorted_wrt (<) offs
     \<and> (\<forall>p\<in>set offs. p \<le> i \<and> p < length d \<and> (0 < p \<longrightarrow> d ! (p - 1) = LF))"


section \<open>Viewport (package nav)\<close>

text \<open>
  The fields and arguments are Go \<open>int\<close> values: 64-bit two's complement on the usual
  targets, where \<open>+\<close>, \<open>-\<close> and \<open>*\<close> wrap around silently. They are 64-bit words read
  as signed; \<open>a <s b\<close> and \<open>a \<le>s b\<close> are the signed comparisons.
\<close>

type_synonym gint = "64 word"

text \<open>Go's \<open>/\<close> on integers truncates towards zero.\<close>

definition goDiv :: "gint \<Rightarrow> gint \<Rightarrow> gint" where
  "goDiv a b = word_of_int (sint a sdiv sint b)"

record Viewport =
  TotalLines :: gint
  Height :: gint
  Cursor :: gint
  Offset :: gint

definition clamp :: "Viewport \<Rightarrow> Viewport" where
  "clamp v =
     (if TotalLines v <s 1 then v\<lparr>Cursor := 1, Offset := 1\<rparr>
      else
        let c1 = (if Cursor v <s 1 then 1 else Cursor v);
            c = (if TotalLines v <s c1 then TotalLines v else c1);
            o1 = (if c <s Offset v then c else Offset v);
            m = c - Height v + 1;
            maxOffset = (if m <s 1 then 1 else m);
            o2 = (if o1 + Height v \<le>s c then maxOffset else o1);
            o3 = (if o2 <s 1 then 1 else o2);
            mv = TotalLines v - Height v + 1;
            maxValidOffset = (if mv <s 1 then 1 else mv);
            o4 = (if maxValidOffset <s o3 then maxValidOffset else o3)
        in v\<lparr>Cursor := c, Offset := o4\<rparr>)"

definition New :: "gint \<Rightarrow> gint \<Rightarrow> Viewport" where
  "New totalLines height =
     clamp \<lparr>TotalLines = totalLines, Height = height, Cursor = 1, Offset = 1\<rparr>"

definition SetHeight :: "gint \<Rightarrow> Viewport \<Rightarrow> Viewport" where
  "SetHeight height v = clamp (v\<lparr>Height := (if height <s 1 then 1 else height)\<rparr>)"

definition SetTotalLines :: "gint \<Rightarrow> Viewport \<Rightarrow> Viewport" where
  "SetTotalLines totalLines v = clamp (v\<lparr>TotalLines := totalLines\<rparr>)"

definition Down :: "gint \<Rightarrow> Viewport \<Rightarrow> Viewport" where
  "Down n v = (if n <s 1 then v else clamp (v\<lparr>Cursor := Cursor v + n\<rparr>))"

definition Up :: "gint \<Rightarrow> Viewport \<Rightarrow> Viewport" where
  "Up n v = (if n <s 1 then v else clamp (v\<lparr>Cursor := Cursor v - n\<rparr>))"

definition PageDown :: "Viewport \<Rightarrow> Viewport" where
  "PageDown v =
     (let off = Offset v + Height v
      in clamp (v\<lparr>Offset := off, Cursor := off\<rparr>))"

definition PageUp :: "Viewport \<Rightarrow> Viewport" where
  "PageUp v =
     (let o0 = Offset v - Height v;
          off = (if o0 <s 1 then 1 else o0);
          c0 = off + Height v - 1;
          c = (if TotalLines v <s c0 then TotalLines v else c0)
      in clamp (v\<lparr>Offset := off, Cursor := c\<rparr>))"

definition halfOf :: "Viewport \<Rightarrow> gint" where
  "halfOf v = (let half = goDiv (Height v) 2 in if half <s 1 then 1 else half)"

definition HalfPageDown :: "Viewport \<Rightarrow> Viewport" where
  "HalfPageDown v =
     clamp (v\<lparr>Offset := Offset v + halfOf v, Cursor := Cursor v + halfOf v\<rparr>)"

definition HalfPageUp :: "Viewport \<Rightarrow> Viewport" where
  "HalfPageUp v =
     clamp (v\<lparr>Offset := Offset v - halfOf v, Cursor := Cursor v - halfOf v\<rparr>)"

definition ScrollDown :: "gint \<Rightarrow> Viewport \<Rightarrow> Viewport" where
  "ScrollDown n v = (if n <s 1 then v else clamp (v\<lparr>Offset := Offset v + n\<rparr>))"

definition ScrollUp :: "gint \<Rightarrow> Viewport \<Rightarrow> Viewport" where
  "ScrollUp n v = (if n <s 1 then v else clamp (v\<lparr>Offset := Offset v - n\<rparr>))"

definition Goto :: "gint \<Rightarrow> Viewport \<Rightarrow> Viewport" where
  "Goto line v = clamp (v\<lparr>Cursor := line\<rparr>)"

definition GotoTop :: "Viewport \<Rightarrow> Viewport" where
  "GotoTop v = Goto 1 v"

definition GotoBottom :: "Viewport \<Rightarrow> Viewport" where
  "GotoBottom v = Goto (TotalLines v) v"

definition GotoLineTop :: "Viewport \<Rightarrow> Viewport" where
  "GotoLineTop v = clamp (v\<lparr>Cursor := Offset v\<rparr>)"

definition GotoLineMiddle :: "Viewport \<Rightarrow> Viewport" where
  "GotoLineMiddle v =
     (let c0 = Offset v + goDiv (Height v) 2;
          c = (if TotalLines v <s c0 then TotalLines v else c0)
      in clamp (v\<lparr>Cursor := c\<rparr>))"

definition GotoLineBottom :: "Viewport \<Rightarrow> Viewport" where
  "GotoLineBottom v =
     (let c0 = Offset v + Height v - 1;
          c = (if TotalLines v <s c0 then TotalLines v else c0)
      in clamp (v\<lparr>Cursor := c\<rparr>))"

text \<open>The line \<open>JumpToPercent\<close> hands to \<open>Goto\<close>.\<close>

definition percentLine :: "gint \<Rightarrow> gint \<Rightarrow> gint" where
  "percentLine totalLines percent =
     (let p1 = (if percent <s 1 then 1 else percent);
          p = (if 100 <s p1 then 100 else p1);
          l0 = goDiv (totalLines * p) 100;
          l1 = (if l0 <s 1 then 1 else l0)
      in if totalLines <s l1 then totalLines else l1)"

definition JumpToPercent :: "gint \<Rightarrow> Viewport \<Rightarrow> Viewport" where
  "JumpToPercent percent v = Goto (percentLine (TotalLines v) percent) v"

definition ClickAt :: "gint \<Rightarrow> Viewport \<Rightarrow> Viewport" where
  "ClickAt relativeRow v =
     (let r1 = (if relativeRow <s 0 then 0 else relativeRow);
          r = (if Height v \<le>s r1 then Height v - 1 else r1)
      in clamp (v\<lparr>Cursor := Offset v + r\<rparr>))"

text \<open>
  The calls a client can make on a viewport, and a run of them. The first sixteen are the
  navigation commands; \<open>CSetHeight\<close> and \<open>CSetTotalLines\<close> reconfigure the viewport.
\<close>

datatype command =
    CDown gint | CUp gint | CPageDown | CPageUp | CHalfPageDown | CHalfPageUp
  | CScrollDown gint | CScrollUp gint | CGoto gint | CGotoTop | CGotoBottom
  | CGotoLineTop | CGotoLineMiddle | CGotoLineBottom | CJumpToPercent gint | CClickAt gint
  | CSetHeight gint | CSetTotalLines gint

fun exec :: "command \<Rightarrow> Viewport \<Rightarrow> Viewport" where
  "exec (CDown n) v = Down n v"
| "exec (CUp n) v = Up n v"
| "exec CPageDown v = PageDown v"
| "exec CPageUp v = PageUp v"
| "exec CHalfPageDown v = HalfPageDown v"
| "exec CHalfPageUp v = HalfPageUp v"
| "exec (CScrollDown n) v = ScrollDown n v"
| "exec (CScrollUp n) v = ScrollUp n v"
| "exec (CGoto l) v = Goto l v"
| "exec CGotoTop v = GotoTop v"
| "exec CGotoBottom v = GotoBottom v"
| "exec CGotoLineTop v = GotoLineTop v"
| "exec CGotoLineMiddle v = GotoLineMiddle v"
| "exec CGotoLineBottom v = GotoLineBottom v"
| "exec (CJumpToPercent p) v = JumpToPercent p v"
| "exec (CClickAt r) v = ClickAt r v"
| "exec (CSetHeight h) v = SetHeight h v"
| "exec (CSetTotalLines n) v = SetTotalLines n v"

fun isNavigation :: "command \<Rightarrow> bool" where
  "isNavigation (CSetHeight h) = False"
| "isNavigation (CSetTotalLines n) = False"
| "isNavigation c = True"

fun run :: "command list \<Rightarrow> Viewport \<Rightarrow> Viewport" where
  "run [] v = v"
| "run (c # cs) v = run cs (exec c v)"


text \<open>
  The invariant of the viewport, and the clamp step read on the signed values of the
  fields: \<open>clampCursor\<close> is the cursor and \<open>clampOffset\<close> the offset that the clamp step
  leaves when there is at least one line. In \<open>clampOffset\<close> the test
  \<open>cursor >= offset + height\<close> also succeeds when \<open>offset + height\<close> exceeds the
  largest \<open>int\<close> and wraps to a negative number.
\<close>

definition vpInv :: "Viewport \<Rightarrow> bool" where
  "vpInv v \<longleftrightarrow>
     1 \<le>s Height v \<and>
     (if 1 \<le>s TotalLines v
      then 1 \<le>s Cursor v \<and> Cursor v \<le>s TotalLines v \<and> Offset v \<le>s Cursor v
           \<and> sint (Cursor v) \<le> sint (Offset v) + sint (Height v) - 1
           \<and> 1 \<le>s Offset v
      else Cursor v = 1 \<and> Offset v = 1)"

definition clampCursor :: "int \<Rightarrow> int \<Rightarrow> int" where
  "clampCursor t c = min t (max 1 c)"

definition clampOffset :: "int \<Rightarrow> int \<Rightarrow> int \<Rightarrow> int \<Rightarrow> int" where
  "clampOffset t h c off =
     (let c' = clampCursor t c;
          o1 = min c' off;
          o2 = (if 9223372036854775807 < o1 + h \<or> o1 + h \<le> c' then max 1 (c' - h + 1) else o1)
      in min (max 1 (t - h + 1)) (max 1 o2))"


section \<open>Building the offset table\<close>

lemma offsOk_mono: "offsOk d i offs \<Longrightarrow> i \<le> j \<Longrightarrow> offsOk d j offs"
  by (fastforce simp: offsOk_def)

lemma offsOk_end: "offsOk d i offs \<Longrightarrow> offsOk d (length d) offs"
  by (fastforce simp: offsOk_def)

lemma offsOk_snoc:
  assumes "offsOk d i offs" "d ! i = LF" "i + 1 < length d"
  shows "offsOk d (i + 1) (offs @ [i + 1])"
proof -
  from assms(1) have ne: "offs \<noteq> []" and hd0: "hd offs = 0" and srt: "sorted_wrt (<) offs"
    and el: "\<And>p. p \<in> set offs \<Longrightarrow> p \<le> i \<and> p < length d \<and> (0 < p \<longrightarrow> d ! (p - 1) = LF)"
    by (simp_all add: offsOk_def)
  have "hd (offs @ [i + 1]) = 0" using ne hd0 by simp
  moreover have "sorted_wrt (<) (offs @ [i + 1])"
    using srt el by (fastforce simp: sorted_wrt_append)
  moreover have "\<forall>p\<in>set (offs @ [i + 1]).
      p \<le> i + 1 \<and> p < length d \<and> (0 < p \<longrightarrow> d ! (p - 1) = LF)"
    using el assms(2,3) by fastforce
  ultimately show ?thesis by (simp add: offsOk_def)
qed

lemma scanLoop_ok:
  "offsOk d i offs \<Longrightarrow> offsOk d (length d) (scanLoop d i offs)"
proof (induction d i offs rule: scanLoop.induct)
  case (1 d i offs)
  show ?case
  proof (cases "i < length d")
    case True
    let ?offs = "if d ! i = LF \<and> i + 1 < length d then offs @ [i + 1] else offs"
    have "offsOk d (i + 1) ?offs"
    proof (cases "d ! i = LF \<and> i + 1 < length d")
      case True
      then show ?thesis using offsOk_snoc [OF "1.prems"] by simp
    next
      case False
      then have e: "?offs = offs" by auto
      show ?thesis unfolding e by (rule offsOk_mono [OF "1.prems"]) simp
    qed
    with True have "offsOk d (length d) (scanLoop d (i + 1) ?offs)"
      by (intro "1.IH") simp_all
    with True show ?thesis by (simp add: scanLoop.simps [of d i offs])
  next
    case False
    have "offsOk d (length d) offs"
      using "1.prems" by (rule offsOk_end)
    with False show ?thesis
      by (simp add: scanLoop.simps [of d i offs])
  qed
qed

lemma drop_butlast_step:
  assumes "i + 1 < length d"
  shows "drop i (butlast d) = d ! i # drop (i + 1) (butlast d)"
proof -
  have "i < length (butlast d)" using assms by simp
  then have "drop i (butlast d) = butlast d ! i # drop (Suc i) (butlast d)"
    by (rule Cons_nth_drop_Suc [symmetric])
  with assms show ?thesis by (simp add: nth_butlast)
qed

lemma scanLoop_length:
  "length (scanLoop d i offs) = length offs + count_list (drop i (butlast d)) LF"
proof (induction d i offs rule: scanLoop.induct)
  case (1 d i offs)
  show ?case
  proof (cases "i + 1 < length d")
    case True
    then have "i < length d" by simp
    then show ?thesis
      using True "1.IH"
      by (simp add: scanLoop.simps [of d i offs] drop_butlast_step [OF True])
  next
    case False
    show ?thesis
    proof (cases "i < length d")
      case True
      with False have "scanLoop d (i + 1) offs = offs"
        by (subst scanLoop.simps) simp
      with True False show ?thesis
        by (simp add: scanLoop.simps [of d i offs])
    next
      case False
      then show ?thesis by (simp add: scanLoop.simps [of d i offs])
    qed
  qed
qed

lemma buildOffsets_result:
  assumes "data idx0 \<noteq> []" "offsets idx0 = []"
  shows "buildOffsets idx0 = Inr (idx0\<lparr>offsets := scanLoop (data idx0) 0 [0]\<rparr>)"
    and "offsOk (data idx0) (length (data idx0)) (scanLoop (data idx0) 0 [0])"
proof -
  have "offsOk (data idx0) 0 [0]" using assms by (simp add: offsOk_def)
  then show ok: "offsOk (data idx0) (length (data idx0)) (scanLoop (data idx0) 0 [0])"
    by (rule scanLoop_ok)
  then have "last (scanLoop (data idx0) 0 [0]) < length (data idx0)"
    by (simp add: offsOk_def)
  then show "buildOffsets idx0 = Inr (idx0\<lparr>offsets := scanLoop (data idx0) 0 [0]\<rparr>)"
    using assms by (simp add: buildOffsets_def Let_def)
qed

lemma buildOffsets_Inr:
  assumes "buildOffsets idx0 = Inr idx" "offsets idx0 = []"
  shows "data idx = data idx0" "data idx0 \<noteq> []"
    and "offsOk (data idx) (length (data idx)) (offsets idx)"
proof -
  show ne: "data idx0 \<noteq> []"
    using assms by (auto simp: buildOffsets_def split: if_splits)
  from buildOffsets_result [OF ne assms(2)] assms(1)
  have idx: "idx = idx0\<lparr>offsets := scanLoop (data idx0) 0 [0]\<rparr>"
    and ok: "offsOk (data idx0) (length (data idx0)) (scanLoop (data idx0) 0 [0])"
    by simp_all
  show "data idx = data idx0" by (simp add: idx)
  show "offsOk (data idx) (length (data idx)) (offsets idx)"
    using ok by (simp add: idx)
qed

text \<open>
  C3. For every non-empty input (an input with at least one line), indexed from an empty
  table as \<open>Open\<close> and \<open>OpenReader\<close> do: \<open>buildOffsets\<close> succeeds; \<open>LineCount()\<close> is the
  length of the offset table; \<open>offsets[0] = 0\<close>; the offsets increase strictly; every
  offset is a position inside the data, so no line starts at the end of the input and a
  trailing newline opens no extra empty line: the line count is one more than the number
  of newline bytes before the last byte. \<open>"line1\nline2\n"\<close> has 2 lines and \<open>"\n\n\n"\<close>
  has 3.
\<close>

theorem offsets_table:
  "(data idx0 \<noteq> [] \<and> offsets idx0 = [] \<longrightarrow>
      (\<exists>idx. buildOffsets idx0 = Inr idx
         \<and> LineCount idx = length (offsets idx)
         \<and> offsets idx ! 0 = 0
         \<and> sorted_wrt (<) (offsets idx)
         \<and> (\<forall>p\<in>set (offsets idx). p < length (data idx))
         \<and> LineCount idx = 1 + count_list (butlast (data idx0)) LF))
   \<and> (case OpenReader (ReadAll (''line1'' @ [LF] @ ''line2'' @ [LF])) ''f'' of
         Inl e \<Rightarrow> Inl e | Inr idx \<Rightarrow> Inr (LineCount idx)) = Inr 2
   \<and> (case OpenReader (ReadAll [LF, LF, LF]) ''f'' of
         Inl e \<Rightarrow> Inl e | Inr idx \<Rightarrow> Inr (LineCount idx)) = Inr 3"
proof (intro conjI impI)
  assume a: "data idx0 \<noteq> [] \<and> offsets idx0 = []"
  then have ne: "data idx0 \<noteq> []" and em: "offsets idx0 = []" by simp_all
  let ?built = "idx0\<lparr>offsets := scanLoop (data idx0) 0 [0]\<rparr>"
  note r = buildOffsets_result [OF ne em]
  from r(2) have "scanLoop (data idx0) 0 [0] \<noteq> []" "hd (scanLoop (data idx0) 0 [0]) = 0"
    by (simp_all add: offsOk_def)
  then have hd0: "offsets ?built ! 0 = 0"
    by (simp add: hd_conv_nth)
  have "LineCount ?built = 1 + count_list (butlast (data idx0)) LF"
    by (simp add: LineCount_def scanLoop_length)
  with r hd0 show "\<exists>idx. buildOffsets idx0 = Inr idx
         \<and> LineCount idx = length (offsets idx)
         \<and> offsets idx ! 0 = 0
         \<and> sorted_wrt (<) (offsets idx)
         \<and> (\<forall>p\<in>set (offsets idx). p < length (data idx))
         \<and> LineCount idx = 1 + count_list (butlast (data idx0)) LF"
    by (intro exI [of _ ?built]) (simp add: LineCount_def offsOk_def)
next
  show "(case OpenReader (ReadAll (''line1'' @ [LF] @ ''line2'' @ [LF])) ''f'' of
         Inl e \<Rightarrow> Inl e | Inr idx \<Rightarrow> Inr (LineCount idx)) = Inr 2"
    by code_simp
  show "(case OpenReader (ReadAll [LF, LF, LF]) ''f'' of
         Inl e \<Rightarrow> Inl e | Inr idx \<Rightarrow> Inr (LineCount idx)) = Inr 3"
    by code_simp
qed

theorem offsets_table_witness:
  "data \<lparr>data = ''ab'' @ [LF] @ ''c'' @ [LF], offsets = [], reader = False, name = ''f''\<rparr> \<noteq> []
   \<and> offsets \<lparr>data = ''ab'' @ [LF] @ ''c'' @ [LF], offsets = [], reader = False, name = ''f''\<rparr> = []
   \<and> (\<exists>idx. buildOffsets \<lparr>data = ''ab'' @ [LF] @ ''c'' @ [LF], offsets = [], reader = False,
                              name = ''f''\<rparr> = Inr idx
         \<and> LineCount idx = 2 \<and> offsets idx ! 0 = 0 \<and> sorted_wrt (<) (offsets idx))"
proof -
  let ?src = "\<lparr>data = ''ab'' @ [LF] @ ''c'' @ [LF], offsets = [], reader = False, name = ''f''\<rparr> :: Index"
  have h: "data ?src \<noteq> [] \<and> offsets ?src = []" by simp
  have c: "1 + count_list (butlast (data ?src)) LF = 2" by code_simp
  from h offsets_table [of ?src]
  have "\<exists>idx. buildOffsets ?src = Inr idx
         \<and> LineCount idx = length (offsets idx)
         \<and> offsets idx ! 0 = 0
         \<and> sorted_wrt (<) (offsets idx)
         \<and> (\<forall>p\<in>set (offsets idx). p < length (data idx))
         \<and> LineCount idx = 1 + count_list (butlast (data ?src)) LF"
    by blast
  then have "\<exists>idx. buildOffsets ?src = Inr idx
         \<and> LineCount idx = 2 \<and> offsets idx ! 0 = 0 \<and> sorted_wrt (<) (offsets idx)"
    unfolding c by blast
  with h show ?thesis by blast
qed


section \<open>Opening an empty input\<close>

text \<open>
  C4. \<open>Open(path)\<close> and \<open>OpenReader(stream, name)\<close> fail with \<open>ErrEmptyFile\<close> if and only if
  the bytes obtained from the file or the stream have length zero; the result is then the
  error alone, no index.
\<close>

theorem empty_input_error:
  "(Open fs path = Inl ErrEmptyFile \<longleftrightarrow> fs path = Mapped [])
   \<and> (OpenReader r nm = Inl ErrEmptyFile \<longleftrightarrow> r = ReadAll [])"
  by (auto simp: Open_def OpenReader_def buildOffsets_def Let_def
           split: mmap_outcome.splits read_outcome.splits)

theorem empty_input_error_witness:
  "Open (\<lambda>p. Mapped []) ''empty.log'' = Inl ErrEmptyFile
   \<and> OpenReader (ReadAll []) ''stdin'' = Inl ErrEmptyFile
   \<and> Open (\<lambda>p. Mapped ''x'') ''one.log'' \<noteq> Inl ErrEmptyFile
   \<and> Open (\<lambda>p. OpenFails) ''missing.log'' \<noteq> Inl ErrEmptyFile"
  using empty_input_error [of "\<lambda>p. Mapped []" "''empty.log''" "ReadAll []" "''stdin''"]
    empty_input_error [of "\<lambda>p. Mapped ''x''" "''one.log''" "ReadAll []" "''stdin''"]
    empty_input_error [of "\<lambda>p. OpenFails" "''missing.log''" "ReadAll []" "''stdin''"]
  by simp


section \<open>Line lookup\<close>

lemma trimCR_ok:
  assumes "start \<le> e" "e \<le> length (data idx)"
  shows "\<exists>e'. trimCR idx start e = Inr e' \<and> start \<le> e' \<and> e' \<le> e"
  using assms by (auto simp: trimCR_def byteAt_def)

lemma lineEnd_built:
  assumes ok: "offsOk (data idx) (length (data idx)) (offsets idx)"
    and n: "1 \<le> n" "n \<le> int (length (offsets idx))"
  shows "\<exists>e. lineEnd idx n = Inr e \<and> offsets idx ! nat (n - 1) \<le> e \<and> e \<le> length (data idx)"
proof (cases "n < int (length (offsets idx))")
  case True
  let ?s = "offsets idx ! nat (n - 1)" and ?e = "offsets idx ! nat n"
  have lt: "nat (n - 1) < nat n" "nat n < length (offsets idx)"
    using n True by simp_all
  from ok have "sorted_wrt (<) (offsets idx)" by (simp add: offsOk_def)
  then have se: "?s < ?e" using lt by (rule sorted_wrt_nth_less)
  have "?e \<in> set (offsets idx)" using lt(2) by simp
  with ok have e: "?e < length (data idx)" "0 < ?e \<longrightarrow> data idx ! (?e - 1) = LF"
    by (simp_all add: offsOk_def)
  have "lineEnd idx n = Inr (?e - 1)"
    using True se e by (simp add: lineEnd_def Let_def byteAt_def)
  moreover have "?s \<le> ?e - 1" "?e - 1 \<le> length (data idx)"
    using se e(1) by linarith+
  ultimately show ?thesis by blast
next
  case False
  with n have last: "nat (n - 1) < length (offsets idx)" by simp
  then have "offsets idx ! nat (n - 1) \<in> set (offsets idx)" by simp
  with ok have "offsets idx ! nat (n - 1) < length (data idx)" by (simp add: offsOk_def)
  with False show ?thesis by (simp add: lineEnd_def)
qed

lemma GetLine_built:
  assumes ok: "offsOk (data idx) (length (data idx)) (offsets idx)"
    and n: "1 \<le> n" "n \<le> int (length (offsets idx))"
  shows "\<exists>bs. GetLine idx n = Inr bs"
proof -
  from lineEnd_built [OF ok n] obtain e where
    e: "lineEnd idx n = Inr e" "offsets idx ! nat (n - 1) \<le> e" "e \<le> length (data idx)"
    by blast
  from trimCR_ok [OF e(2,3)] obtain e' where
    e': "trimCR idx (offsets idx ! nat (n - 1)) e = Inr e'"
        "offsets idx ! nat (n - 1) \<le> e'" "e' \<le> e"
    by blast
  show ?thesis
    using n e e' by (simp add: GetLine_def Let_def sliceOf_def)
qed

text \<open>
  C5. For every index built by \<open>buildOffsets\<close> from an empty table and every integer \<open>n\<close>,
  \<open>GetLine(n)\<close> and \<open>GetLineString(n)\<close> fail with \<open>ErrInvalidLine\<close> if and only if \<open>n < 1\<close>
  or \<open>n > LineCount()\<close>; for every \<open>n\<close> in \<open>[1, LineCount()]\<close> both return bytes (no error and
  no panic).
\<close>

theorem invalid_line_error:
  assumes "buildOffsets idx0 = Inr idx" "offsets idx0 = []"
  shows "(GetLine idx n = Inl ErrInvalidLine \<longleftrightarrow> n < 1 \<or> int (LineCount idx) < n)
       \<and> (GetLineString idx n = Inl ErrInvalidLine \<longleftrightarrow> n < 1 \<or> int (LineCount idx) < n)
       \<and> (1 \<le> n \<and> n \<le> int (LineCount idx) \<longrightarrow>
            (\<exists>bs. GetLine idx n = Inr bs \<and> GetLineString idx n = Inr bs))"
proof -
  have ok: "offsOk (data idx) (length (data idx)) (offsets idx)"
    using assms by (rule buildOffsets_Inr)
  show ?thesis
  proof (cases "1 \<le> n \<and> n \<le> int (length (offsets idx))")
    case True
    then obtain bs where "GetLine idx n = Inr bs"
      using GetLine_built [OF ok, of n] by blast
    with True show ?thesis by (simp add: GetLineString_def LineCount_def)
  next
    case False
    then have "GetLine idx n = Inl ErrInvalidLine" by (auto simp: GetLine_def)
    with False show ?thesis by (auto simp: GetLineString_def LineCount_def)
  qed
qed

theorem invalid_line_error_witness:
  "buildOffsets \<lparr>data = ''line1'' @ [LF] @ ''line2'' @ [LF], offsets = [], reader = False, name = ''f''\<rparr>
     = Inr \<lparr>data = ''line1'' @ [LF] @ ''line2'' @ [LF], offsets = [0, 6], reader = False, name = ''f''\<rparr>
   \<and> GetLine \<lparr>data = ''line1'' @ [LF] @ ''line2'' @ [LF], offsets = [0, 6], reader = False, name = ''f''\<rparr> 0
       = Inl ErrInvalidLine
   \<and> GetLine \<lparr>data = ''line1'' @ [LF] @ ''line2'' @ [LF], offsets = [0, 6], reader = False, name = ''f''\<rparr> 3
       = Inl ErrInvalidLine
   \<and> (\<exists>bs. GetLine \<lparr>data = ''line1'' @ [LF] @ ''line2'' @ [LF], offsets = [0, 6], reader = False, name = ''f''\<rparr> 1
              = Inr bs)"
proof -
  let ?src = "\<lparr>data = ''line1'' @ [LF] @ ''line2'' @ [LF], offsets = [], reader = False, name = ''f''\<rparr> :: Index"
  let ?built = "\<lparr>data = ''line1'' @ [LF] @ ''line2'' @ [LF], offsets = [0, 6], reader = False, name = ''f''\<rparr> :: Index"
  have b: "buildOffsets ?src = Inr ?built" by code_simp
  have e: "offsets ?src = []" by simp
  have i0: "GetLine ?built 0 = Inl ErrInvalidLine"
    using invalid_line_error [OF b e, of 0] by (simp add: LineCount_def)
  have i3: "GetLine ?built 3 = Inl ErrInvalidLine"
    using invalid_line_error [OF b e, of 3] by (simp add: LineCount_def)
  have i1: "\<exists>bs. GetLine ?built 1 = Inr bs"
    using invalid_line_error [OF b e, of 1] by (auto simp: LineCount_def)
  from b i0 i3 i1 show ?thesis by blast
qed

text \<open>
  C1, at its own example. For the three-line file \<open>"line1\nline2\nline3\n"\<close> the lines 1
  and 2 come back without their newline, but \<open>GetLineString(3)\<close> is \<open>"line3\n"\<close>: the range
  of the last line ends at the length of the data, and on that branch only a trailing
  carriage return is trimmed. With Windows line endings, \<open>"line1\r\nline2\r\n"\<close>, line 1 is
  \<open>"line1"\<close> and the last line keeps both bytes, \<open>"line2\r\n"\<close>.
\<close>

theorem last_line_keeps_newline:
  "(case Open (\<lambda>p. Mapped (''line1'' @ [LF] @ ''line2'' @ [LF] @ ''line3'' @ [LF])) ''test.log'' of
      Inl e \<Rightarrow> Inl e
    | Inr idx \<Rightarrow> Inr (LineCount idx, GetLineString idx 1, GetLineString idx 2,
                      GetLineString idx 3))
   = Inr (3, Inr ''line1'', Inr ''line2'', Inr (''line3'' @ [LF]))
   \<and> (case Open (\<lambda>p. Mapped (''line1'' @ [CR, LF] @ ''line2'' @ [CR, LF])) ''crlf.log'' of
        Inl e \<Rightarrow> Inl e
      | Inr idx \<Rightarrow> Inr (LineCount idx, GetLineString idx 1, GetLineString idx 2))
     = Inr (2, Inr ''line1'', Inr (''line2'' @ [CR, LF]))"
  by code_simp


section \<open>Signed 64-bit arithmetic\<close>

lemma sint64_lower: "- 9223372036854775808 \<le> sint (x::gint)"
  using sint_ge [of x] by simp

lemma sint64_upper: "sint (x::gint) \<le> 9223372036854775807"
  using sint_lt [of x] by simp

lemma wrap64_mod:
  "signed_take_bit 63 (k::int) = (k + 9223372036854775808) mod 18446744073709551616 - 9223372036854775808"
  by (simp add: signed_take_bit_eq_take_bit_shift take_bit_eq_mod)

lemma wrap64_id:
  assumes "- 9223372036854775808 \<le> k" "k \<le> 9223372036854775807"
  shows "signed_take_bit 63 (k::int) = k"
  using assms by (simp add: signed_take_bit_int_eq_self)

lemma wrap64_high:
  assumes "9223372036854775807 < k" "k \<le> 27670116110564327423"
  shows "signed_take_bit 63 (k::int) = k - 18446744073709551616"
proof -
  have "k + 9223372036854775808 = (k - 9223372036854775808) + 18446744073709551616"
    by simp
  then have "(k + 9223372036854775808) mod 18446744073709551616
         = (k - 9223372036854775808) mod 18446744073709551616"
    by (simp only: mod_add_self2)
  also have "\<dots> = k - 9223372036854775808"
    using assms by (intro mod_pos_pos_trivial) simp_all
  finally show ?thesis by (simp add: wrap64_mod)
qed

lemma wrap64_low:
  assumes "k < - 9223372036854775808" "- 27670116110564327424 \<le> k"
  shows "signed_take_bit 63 (k::int) = k + 18446744073709551616"
proof -
  have "(k + 27670116110564327424) mod 18446744073709551616
         = k + 27670116110564327424"
    using assms by (intro mod_pos_pos_trivial) simp_all
  moreover have "k + 27670116110564327424 = (k + 9223372036854775808) + 18446744073709551616"
    by simp
  ultimately have "(k + 9223372036854775808) mod 18446744073709551616 = k + 27670116110564327424"
    by (simp only: mod_add_self2)
  then show ?thesis by (simp add: wrap64_mod)
qed

lemma sint64_add:
  "sint (a + b :: gint) =
     (if 9223372036854775807 < sint a + sint b then sint a + sint b - 18446744073709551616
      else if sint a + sint b < - 9223372036854775808 then sint a + sint b + 18446744073709551616
      else sint a + sint b)"
  using sint64_lower [of a] sint64_upper [of a] sint64_lower [of b] sint64_upper [of b]
  by (simp add: sint_word_ariths wrap64_id wrap64_high wrap64_low)

lemma sint64_diff:
  "sint (a - b :: gint) =
     (if 9223372036854775807 < sint a - sint b then sint a - sint b - 18446744073709551616
      else if sint a - sint b < - 9223372036854775808 then sint a - sint b + 18446744073709551616
      else sint a - sint b)"
  using sint64_lower [of a] sint64_upper [of a] sint64_lower [of b] sint64_upper [of b]
  by (simp add: sint_word_ariths wrap64_id wrap64_high wrap64_low)

lemma sint64_eq_iff: "(a::gint) = b \<longleftrightarrow> sint a = sint b"
  by (auto intro: signed_word_eqI)


section \<open>The clamp step on signed values\<close>

lemma sint_floor1: "sint (if x <s 1 then 1 else x :: gint) = max 1 (sint x)"
  by (simp add: word_sless_alt max_def)

lemma sint_cap: "sint (if t <s x then t else x :: gint) = min (sint t) (sint x)"
  by (simp add: word_sless_alt min_def)

lemma sint_sub_add1:
  assumes "1 \<le> sint (c::gint)" "1 \<le> sint (h::gint)"
  shows "sint (c - h + 1) = sint c - sint h + 1"
proof -
  have "sint (c - h) = sint c - sint h"
    using assms sint64_upper [of c] sint64_upper [of h] by (simp add: sint64_diff)
  then show ?thesis
    using assms sint64_upper [of c] sint64_upper [of h] by (simp add: sint64_add)
qed

lemma clamp_fields [simp]:
  "TotalLines (clamp v) = TotalLines v" "Height (clamp v) = Height v"
  by (simp_all add: clamp_def Let_def)

lemma clamp_empty:
  "sint (TotalLines v) < 1 \<Longrightarrow> clamp v = v\<lparr>Cursor := 1, Offset := 1\<rparr>"
  by (simp add: clamp_def word_sless_alt)

lemma clamp_cursor_sint:
  assumes "1 \<le> sint (TotalLines v)"
  shows "sint (Cursor (clamp v)) = clampCursor (sint (TotalLines v)) (sint (Cursor v))"
  using assms
  by (simp add: clamp_def Let_def word_sless_alt clampCursor_def min_def max_def)

lemma clamp_offset_sint:
  assumes t: "1 \<le> sint (TotalLines v)" and h: "1 \<le> sint (Height v)"
  shows "sint (Offset (clamp v))
         = clampOffset (sint (TotalLines v)) (sint (Height v)) (sint (Cursor v)) (sint (Offset v))"
proof -
  define c1 where "c1 = (if Cursor v <s 1 then 1 else Cursor v)"
  define c where "c = (if TotalLines v <s c1 then TotalLines v else c1)"
  define o1 where "o1 = (if c <s Offset v then c else Offset v)"
  define m where "m = c - Height v + 1"
  define maxOffset where "maxOffset = (if m <s 1 then 1 else m)"
  define o2 where "o2 = (if o1 + Height v \<le>s c then maxOffset else o1)"
  define o3 where "o3 = (if o2 <s 1 then 1 else o2)"
  define mv where "mv = TotalLines v - Height v + 1"
  define maxValidOffset where "maxValidOffset = (if mv <s 1 then 1 else mv)"
  define o4 where "o4 = (if maxValidOffset <s o3 then maxValidOffset else o3)"
  have off: "Offset (clamp v) = o4"
    using t unfolding clamp_def Let_def o4_def maxValidOffset_def mv_def o3_def o2_def
      maxOffset_def m_def o1_def c_def c1_def
    by (simp add: word_sless_alt)
  have sc1: "sint c1 = max 1 (sint (Cursor v))"
    unfolding c1_def by (rule sint_floor1)
  have sc: "sint c = clampCursor (sint (TotalLines v)) (sint (Cursor v))"
    unfolding c_def clampCursor_def by (simp only: sint_cap sc1)
  have c_ge: "1 \<le> sint c" using t by (simp add: sc clampCursor_def)
  have so1: "sint o1 = min (sint c) (sint (Offset v))"
    unfolding o1_def by (rule sint_cap)
  have sm: "sint m = sint c - sint (Height v) + 1"
    unfolding m_def using c_ge h by (rule sint_sub_add1)
  have smo: "sint maxOffset = max 1 (sint c - sint (Height v) + 1)"
    unfolding maxOffset_def by (simp only: sint_floor1 sm)
  have cond: "(o1 + Height v \<le>s c)
                \<longleftrightarrow> (9223372036854775807 < sint o1 + sint (Height v) \<or> sint o1 + sint (Height v) \<le> sint c)"
    using c_ge h sint64_lower [of o1] sint64_upper [of o1] sint64_upper [of "Height v"]
    by (simp add: word_sle_eq sint64_add)
  have so2: "sint o2 = (if 9223372036854775807 < sint o1 + sint (Height v) \<or> sint o1 + sint (Height v) \<le> sint c
                        then max 1 (sint c - sint (Height v) + 1) else sint o1)"
    unfolding o2_def by (simp only: cond smo if_distrib [of sint])
  have so3: "sint o3 = max 1 (sint o2)"
    unfolding o3_def by (rule sint_floor1)
  have smv: "sint mv = sint (TotalLines v) - sint (Height v) + 1"
    unfolding mv_def using t h by (rule sint_sub_add1)
  have smvo: "sint maxValidOffset = max 1 (sint (TotalLines v) - sint (Height v) + 1)"
    unfolding maxValidOffset_def by (simp only: sint_floor1 smv)
  have so4: "sint o4 = min (sint maxValidOffset) (sint o3)"
    unfolding o4_def by (rule sint_cap)
  show ?thesis
    unfolding off so4 smvo so3 so2 so1 sc clampOffset_def Let_def ..
qed


lemma clampCursor_bounds:
  assumes "1 \<le> t"
  shows "1 \<le> clampCursor t c" "clampCursor t c \<le> t"
  using assms by (simp_all add: clampCursor_def)

lemma clampOffset_bounds:
  assumes "1 \<le> t" "1 \<le> h"
  shows "1 \<le> clampOffset t h c off"
    and "clampOffset t h c off \<le> clampCursor t c"
    and "clampCursor t c \<le> clampOffset t h c off + h - 1"
    and "clampOffset t h c off \<le> max 1 (t - h + 1)"
proof -
  have b: "1 \<le> clampCursor t c" "clampCursor t c \<le> t"
    using assms by (simp_all add: clampCursor_bounds)
  show "1 \<le> clampOffset t h c off"
    by (simp add: clampOffset_def Let_def)
  show "clampOffset t h c off \<le> clampCursor t c"
    using b assms unfolding clampOffset_def Let_def by (auto simp: min_def max_def)
  show "clampCursor t c \<le> clampOffset t h c off + h - 1"
    using b assms unfolding clampOffset_def Let_def by (auto simp: min_def max_def)
  show "clampOffset t h c off \<le> max 1 (t - h + 1)"
    unfolding clampOffset_def Let_def by simp
qed

lemma clamp_establishes:
  assumes h: "1 \<le>s Height v"
  shows "vpInv (clamp v)"
proof (cases "1 \<le>s TotalLines v")
  case True
  then have t: "1 \<le> sint (TotalLines v)" by (simp add: word_sle_eq)
  from h have h': "1 \<le> sint (Height v)" by (simp add: word_sle_eq)
  show ?thesis
    using True h clampCursor_bounds [OF t, of "sint (Cursor v)"]
      clampOffset_bounds [OF t h', of "sint (Cursor v)" "sint (Offset v)"]
    by (simp add: vpInv_def word_sle_eq clamp_cursor_sint [OF t] clamp_offset_sint [OF t h'])
next
  case False
  then have "sint (TotalLines v) < 1" by (simp add: word_sle_eq)
  then show ?thesis
    using False h by (simp add: clamp_empty vpInv_def)
qed

section \<open>Reachable states\<close>

lemma exec_shape:
  "exec c v = v \<or> (\<exists>w. exec c v = clamp w \<and> (Height w = Height v \<or> 1 \<le>s Height w))"
proof (cases c)
  case (CSetHeight h)
  have "1 \<le>s (if h <s 1 then 1 else h)"
    by (simp add: word_sle_eq word_sless_alt)
  then show ?thesis
    unfolding CSetHeight exec.simps SetHeight_def
    by (intro disjI2 exI [of _ "v\<lparr>Height := (if h <s 1 then 1 else h)\<rparr>"]) simp
qed (auto simp: Down_def Up_def PageDown_def PageUp_def HalfPageDown_def HalfPageUp_def
       ScrollDown_def ScrollUp_def Goto_def GotoTop_def GotoBottom_def GotoLineTop_def
       GotoLineMiddle_def GotoLineBottom_def JumpToPercent_def ClickAt_def SetTotalLines_def
       Let_def
     intro: exI [of _ "v\<lparr>Cursor := x\<rparr>" for x])


lemma exec_inv:
  assumes "vpInv v"
  shows "vpInv (exec c v)"
proof -
  from assms have h: "1 \<le>s Height v" by (simp add: vpInv_def)
  from exec_shape [of c v] show ?thesis
  proof
    assume "exec c v = v"
    with assms show ?thesis by simp
  next
    assume "\<exists>w. exec c v = clamp w \<and> (Height w = Height v \<or> 1 \<le>s Height w)"
    then obtain w where w: "exec c v = clamp w" "Height w = Height v \<or> 1 \<le>s Height w"
      by blast
    from w(2) h have "1 \<le>s Height w" by auto
    then show ?thesis unfolding w(1) by (rule clamp_establishes)
  qed
qed

lemma run_inv: "vpInv v \<Longrightarrow> vpInv (run cs v)"
  by (induction cs arbitrary: v) (simp_all add: exec_inv)

lemma New_inv: "1 \<le>s height \<Longrightarrow> vpInv (New totalLines height)"
  unfolding New_def by (rule clamp_establishes) simp

lemma nav_shape:
  assumes "isNavigation c"
  shows "exec c v = v
         \<or> (\<exists>w. exec c v = clamp w \<and> TotalLines w = TotalLines v \<and> Height w = Height v)"
  using assms
  by (cases c)
     (auto simp: Down_def Up_def PageDown_def PageUp_def HalfPageDown_def HalfPageUp_def
       ScrollDown_def ScrollUp_def Goto_def GotoTop_def GotoBottom_def GotoLineTop_def
       GotoLineMiddle_def GotoLineBottom_def JumpToPercent_def ClickAt_def Let_def
      intro: exI [of _ "v\<lparr>Cursor := x\<rparr>" for x])

lemma nav_noop_when_empty:
  assumes inv: "vpInv v" and t: "TotalLines v = 0" and nav: "isNavigation c"
  shows "exec c v = v"
proof -
  from inv t have co: "Cursor v = 1" "Offset v = 1"
    by (simp_all add: vpInv_def word_sle_eq)
  from nav_shape [OF nav, of v] show ?thesis
  proof
    assume "exec c v = v" then show ?thesis .
  next
    assume "\<exists>w. exec c v = clamp w \<and> TotalLines w = TotalLines v \<and> Height w = Height v"
    then obtain w where w: "exec c v = clamp w" "TotalLines w = TotalLines v" "Height w = Height v"
      by blast
    have "sint (TotalLines w) < 1" by (simp add: w(2) t)
    then have "clamp w = w\<lparr>Cursor := 1, Offset := 1\<rparr>" by (rule clamp_empty)
    also have "\<dots> = v" using w(2,3) co by (cases v, cases w) simp
    finally show ?thesis by (simp add: w(1))
  qed
qed

text \<open>
  C2. Every state reached from \<open>New(totalLines, height)\<close> with \<open>height >= 1\<close> by any run
  of navigation commands, \<open>SetHeight\<close> and \<open>SetTotalLines\<close> calls satisfies: when there is
  at least one line, \<open>1 <= cursor <= totalLines\<close> and
  \<open>offset <= cursor <= offset + height - 1\<close> (the right-hand side as a mathematical
  integer); when \<open>totalLines = 0\<close>, cursor and offset are both 1 and every navigation
  command returns the state unchanged.
\<close>

theorem viewport_invariant:
  assumes "1 \<le>s height"
  shows "(1 \<le>s TotalLines (run cs (New totalLines height)) \<longrightarrow>
            1 \<le>s Cursor (run cs (New totalLines height))
          \<and> Cursor (run cs (New totalLines height)) \<le>s TotalLines (run cs (New totalLines height))
          \<and> Offset (run cs (New totalLines height)) \<le>s Cursor (run cs (New totalLines height))
          \<and> sint (Cursor (run cs (New totalLines height)))
               \<le> sint (Offset (run cs (New totalLines height)))
                  + sint (Height (run cs (New totalLines height))) - 1)
       \<and> (TotalLines (run cs (New totalLines height)) = 0 \<longrightarrow>
            Cursor (run cs (New totalLines height)) = 1
          \<and> Offset (run cs (New totalLines height)) = 1
          \<and> (\<forall>c. isNavigation c \<longrightarrow>
                 exec c (run cs (New totalLines height)) = run cs (New totalLines height)))"
proof -
  have inv: "vpInv (run cs (New totalLines height))"
    using assms by (intro run_inv New_inv)
  show ?thesis
    using inv nav_noop_when_empty [OF inv]
    by (auto simp: vpInv_def word_sle_eq)
qed

theorem viewport_invariant_witness:
  "(1::gint) \<le>s 10
   \<and> 1 \<le>s TotalLines (run [CDown 150, CScrollUp 3] (New 100 10))
   \<and> 1 \<le>s Cursor (run [CDown 150, CScrollUp 3] (New 100 10))
   \<and> Cursor (run [CDown 150, CScrollUp 3] (New 100 10))
        \<le>s TotalLines (run [CDown 150, CScrollUp 3] (New 100 10))
   \<and> Offset (run [CDown 150, CScrollUp 3] (New 100 10))
        \<le>s Cursor (run [CDown 150, CScrollUp 3] (New 100 10))
   \<and> sint (Cursor (run [CDown 150, CScrollUp 3] (New 100 10)))
        \<le> sint (Offset (run [CDown 150, CScrollUp 3] (New 100 10)))
           + sint (Height (run [CDown 150, CScrollUp 3] (New 100 10))) - 1
   \<and> TotalLines (run [CGoto 7, CSetHeight 0] (New 0 10)) = 0
   \<and> Cursor (run [CGoto 7, CSetHeight 0] (New 0 10)) = 1
   \<and> Offset (run [CGoto 7, CSetHeight 0] (New 0 10)) = 1
   \<and> exec CPageDown (run [CGoto 7, CSetHeight 0] (New 0 10))
        = run [CGoto 7, CSetHeight 0] (New 0 10)"
proof -
  have h: "(1::gint) \<le>s 10" by (simp add: word_sle_eq)
  have a: "1 \<le>s TotalLines (run [CDown 150, CScrollUp 3] (New 100 10))" by code_simp
  have b: "TotalLines (run [CGoto 7, CSetHeight 0] (New 0 10)) = 0" by code_simp
  have n: "isNavigation CPageDown" by simp
  show ?thesis
    using h a b n
      viewport_invariant [OF h, of "[CDown 150, CScrollUp 3]" 100]
      viewport_invariant [OF h, of "[CGoto 7, CSetHeight 0]" 0]
    by blast
qed


section \<open>Boundary commands\<close>

lemma clamp_cursor_value:
  "sint (Cursor (clamp v))
     = (if sint (TotalLines v) < 1 then 1 else clampCursor (sint (TotalLines v)) (sint (Cursor v)))"
  by (simp add: clamp_empty clamp_cursor_sint)

lemma GotoBottom_cursor:
  "sint (Cursor (GotoBottom v)) = (if sint (TotalLines v) < 1 then 1 else sint (TotalLines v))"
  by (simp add: GotoBottom_def Goto_def clamp_cursor_value clampCursor_def)

lemma GotoTop_cursor: "Cursor (GotoTop v) = 1"
proof -
  have "sint (Cursor (GotoTop v)) = 1"
    by (simp add: GotoTop_def Goto_def clamp_cursor_value clampCursor_def)
  then show ?thesis by (simp add: sint64_eq_iff)
qed

lemma Goto_fields [simp]:
  "TotalLines (Goto l v) = TotalLines v" "Height (Goto l v) = Height v"
  by (simp_all add: Goto_def)

text \<open>
  C9, as the code has it. For every viewport state and every \<open>n\<close> for which
  \<open>totalLines + n\<close> does not exceed the largest 64-bit \<open>int\<close> (every \<open>n < 1\<close> included,
  where \<open>Down\<close> returns at once), \<open>GotoBottom()\<close> followed by \<open>Down(n)\<close> leaves the
  cursor where \<open>GotoBottom()\<close> put it; and for every \<open>n\<close> whatsoever \<open>GotoTop()\<close> followed
  by \<open>Up(n)\<close> leaves the cursor where \<open>GotoTop()\<close> put it.
\<close>

theorem bottom_down_top_up:
  "(sint (TotalLines v) + sint n \<le> 9223372036854775807 \<longrightarrow>
      Cursor (Down n (GotoBottom v)) = Cursor (GotoBottom v))
   \<and> Cursor (Up n (GotoTop v)) = Cursor (GotoTop v)"
proof (intro conjI impI)
  assume nowrap: "sint (TotalLines v) + sint n \<le> 9223372036854775807"
  show "Cursor (Down n (GotoBottom v)) = Cursor (GotoBottom v)"
  proof (cases "n <s 1")
    case True
    then show ?thesis by (simp add: Down_def)
  next
    case False
    then have n: "1 \<le> sint n" by (simp add: word_sless_alt)
    let ?w = "GotoBottom v"
    have tw: "TotalLines ?w = TotalLines v" by (simp add: GotoBottom_def)
    show ?thesis
    proof (cases "sint (TotalLines v) < 1")
      case True
      then show ?thesis
        using False by (simp add: sint64_eq_iff Down_def clamp_cursor_value tw GotoBottom_cursor)
    next
      case t: False
      have c: "sint (Cursor ?w) = sint (TotalLines v)"
        using t by (simp add: GotoBottom_cursor)
      have "sint (Cursor ?w + n) = sint (TotalLines v) + sint n"
        using nowrap n t by (simp add: sint64_add c)
      then show ?thesis
        using False t n
        by (simp add: sint64_eq_iff Down_def clamp_cursor_value tw clampCursor_def c)
    qed
  qed
next
  show "Cursor (Up n (GotoTop v)) = Cursor (GotoTop v)"
  proof (cases "n <s 1")
    case True
    then show ?thesis by (simp add: Up_def)
  next
    case False
    then have n: "1 \<le> sint n" by (simp add: word_sless_alt)
    let ?w = "GotoTop v"
    have tw: "TotalLines ?w = TotalLines v" by (simp add: GotoTop_def)
    have "sint (Cursor ?w - n) = 1 - sint n"
      using n sint64_upper [of n] by (simp add: sint64_diff GotoTop_cursor)
    then have "sint (Cursor (Up n ?w)) = 1"
      using False n by (simp add: Up_def clamp_cursor_value tw clampCursor_def)
    then show ?thesis by (simp add: sint64_eq_iff GotoTop_cursor)
  qed
qed

theorem bottom_down_top_up_witness:
  "sint (TotalLines (New 100 10)) + sint (5::gint) \<le> 9223372036854775807
   \<and> Cursor (Down 5 (GotoBottom (New 100 10))) = Cursor (GotoBottom (New 100 10))
   \<and> Cursor (Up 5 (GotoTop (New 100 10))) = Cursor (GotoTop (New 100 10))"
proof -
  have h: "sint (TotalLines (New 100 10)) + sint (5::gint) \<le> 9223372036854775807"
    by (simp add: New_def)
  show ?thesis
    using h bottom_down_top_up [of "New 100 10" 5] by blast
qed

text \<open>
  C9 as stated fails for large \<open>n\<close>: with 100 lines, \<open>cursor += n\<close> for the largest \<open>int\<close>
  wraps to a negative number, and the clamp step then puts the cursor on line 1.
\<close>

theorem bottom_down_counterexample:
  "(0::gint) \<le>s 9223372036854775807
   \<and> Cursor (GotoBottom (New 100 10)) = 100
   \<and> Cursor (Down 9223372036854775807 (GotoBottom (New 100 10))) = 1
   \<and> Cursor (Down 9223372036854775807 (GotoBottom (New 100 10)))
        \<noteq> Cursor (GotoBottom (New 100 10))"
  by code_simp


section \<open>Percent jumps\<close>

lemma sdiv_nonneg_100: "0 \<le> k \<Longrightarrow> (k::int) sdiv 100 = k div 100"
  by (cases "k = 0") (simp_all add: signed_divide_int_def)

lemma percentLine_sint:
  assumes t: "1 \<le> sint t" and b: "sint t \<le> 92233720368547758"
  shows "sint (percentLine t p) = max 1 (sint t * min 100 (max 1 (sint p)) div 100)"
proof -
  define p1 where "p1 = (if p <s 1 then 1 else p)"
  define q where "q = (if 100 <s p1 then 100 else p1)"
  define l0 where "l0 = goDiv (t * q) 100"
  define l1 where "l1 = (if l0 <s 1 then 1 else l0)"
  have pl: "percentLine t p = (if t <s l1 then t else l1)"
    by (simp add: percentLine_def Let_def l1_def l0_def q_def p1_def)
  have sp1: "sint p1 = max 1 (sint p)"
    unfolding p1_def by (rule sint_floor1)
  have sq: "sint q = min 100 (max 1 (sint p))"
    unfolding q_def using sint_cap [of 100 p1] by (simp add: sp1)
  have q_bounds: "1 \<le> sint q" "sint q \<le> 100" by (simp_all add: sq)
  have prod_lo: "0 \<le> sint t * sint q" using t q_bounds by simp
  have "sint t * sint q \<le> 92233720368547758 * 100"
    using t b q_bounds by (intro mult_mono) simp_all
  then have prod_hi: "sint t * sint q \<le> 9223372036854775807" by simp
  have sprod: "sint (t * q) = sint t * sint q"
    using prod_lo prod_hi by (simp add: sint_word_ariths wrap64_id)
  have quot_lo: "0 \<le> sint t * sint q div 100" using prod_lo by simp
  have "sint t * sint q div 100 \<le> sint t * 100 div 100"
    using t q_bounds by (intro zdiv_mono1 mult_left_mono) simp_all
  then have quot_hi: "sint t * sint q div 100 \<le> sint t" by simp
  have sl0: "sint l0 = sint t * sint q div 100"
    using quot_lo quot_hi b prod_lo
    by (simp add: l0_def goDiv_def sprod sdiv_nonneg_100 sint_sbintrunc' wrap64_id)
  have sl1: "sint l1 = max 1 (sint t * sint q div 100)"
    unfolding l1_def by (simp only: sint_floor1 sl0)
  have "sint (percentLine t p) = min (sint t) (sint l1)"
    unfolding pl by (rule sint_cap)
  also have "\<dots> = sint l1" using quot_hi t by (simp add: sl1)
  finally show ?thesis by (simp add: sl1 sq)
qed

lemma percentLine_bounds:
  assumes t: "1 \<le> sint t" and b: "sint t \<le> 92233720368547758"
  shows "1 \<le> sint (percentLine t p)" "sint (percentLine t p) \<le> sint t"
proof -
  have "sint t * min 100 (max 1 (sint p)) div 100 \<le> sint t * 100 div 100"
    using t by (intro zdiv_mono1 mult_left_mono) simp_all
  then show "sint (percentLine t p) \<le> sint t"
    using t by (simp add: percentLine_sint [OF t b])
  show "1 \<le> sint (percentLine t p)"
    by (simp add: percentLine_sint [OF t b])
qed

lemma JumpToPercent_cursor:
  assumes t: "1 \<le> sint (TotalLines v)" and b: "sint (TotalLines v) \<le> 92233720368547758"
  shows "sint (Cursor (JumpToPercent p v))
           = max 1 (sint (TotalLines v) * min 100 (max 1 (sint p)) div 100)"
proof -
  have "sint (Cursor (JumpToPercent p v))
          = clampCursor (sint (TotalLines v)) (sint (percentLine (TotalLines v) p))"
    using t by (simp add: JumpToPercent_def Goto_def clamp_cursor_value)
  also have "\<dots> = sint (percentLine (TotalLines v) p)"
    using percentLine_bounds [OF t b, of p] by (simp add: clampCursor_def)
  finally show ?thesis by (simp add: percentLine_sint [OF t b])
qed

text \<open>
  C7, as the code has it. For every viewport with \<open>1 <= totalLines <= 92233720368547758\<close>
  (the largest \<open>int\<close> divided by 100, so that \<open>totalLines * percent\<close> cannot wrap) and every
  \<open>p\<close>, \<open>JumpToPercent(p)\<close> clamps \<open>p\<close> into \<open>[1,100]\<close> and sets the cursor to
  \<open>totalLines * p / 100\<close> (integer division), floored to 1. So \<open>JumpToPercent(0)\<close> is
  \<open>JumpToPercent(1)\<close>: it lands on line \<open>max(1, totalLines / 100)\<close>, never on line 0, and
  \<open>JumpToPercent(100)\<close> lands on the last line. With \<open>New(100,10)\<close>, \<open>JumpToPercent(0)\<close>
  gives line 1 and \<open>JumpToPercent(200)\<close> gives line 100.
\<close>

theorem jump_to_percent_line:
  "(1 \<le>s TotalLines v \<and> sint (TotalLines v) \<le> 92233720368547758 \<longrightarrow>
      sint (Cursor (JumpToPercent p v))
        = max 1 (sint (TotalLines v) * min 100 (max 1 (sint p)) div 100)
    \<and> Cursor (JumpToPercent 0 v) = Cursor (JumpToPercent 1 v)
    \<and> sint (Cursor (JumpToPercent 0 v)) = max 1 (sint (TotalLines v) div 100)
    \<and> Cursor (JumpToPercent 100 v) = TotalLines v)
   \<and> Cursor (JumpToPercent 0 (New 100 10)) = 1
   \<and> Cursor (JumpToPercent 200 (New 100 10)) = 100"
proof (intro conjI impI)
  assume a: "1 \<le>s TotalLines v \<and> sint (TotalLines v) \<le> 92233720368547758"
  then have t: "1 \<le> sint (TotalLines v)" and b: "sint (TotalLines v) \<le> 92233720368547758"
    by (simp_all add: word_sle_eq)
  note J = JumpToPercent_cursor [OF t b]
  show "sint (Cursor (JumpToPercent p v))
          = max 1 (sint (TotalLines v) * min 100 (max 1 (sint p)) div 100)"
    by (rule J)
  show "Cursor (JumpToPercent 0 v) = Cursor (JumpToPercent 1 v)"
    by (simp add: sint64_eq_iff J)
  show "sint (Cursor (JumpToPercent 0 v)) = max 1 (sint (TotalLines v) div 100)"
    by (simp add: J)
  show "Cursor (JumpToPercent 100 v) = TotalLines v"
    using t by (simp add: sint64_eq_iff J)
next
  show "Cursor (JumpToPercent 0 (New 100 10)) = 1" by code_simp
  show "Cursor (JumpToPercent 200 (New 100 10)) = 100" by code_simp
qed

theorem jump_to_percent_line_witness:
  "1 \<le>s TotalLines (New 100 10) \<and> sint (TotalLines (New 100 10)) \<le> 92233720368547758
   \<and> sint (Cursor (JumpToPercent 50 (New 100 10))) = 50
   \<and> Cursor (JumpToPercent 0 (New 100 10)) = Cursor (JumpToPercent 1 (New 100 10))
   \<and> sint (Cursor (JumpToPercent 0 (New 100 10))) = 1
   \<and> Cursor (JumpToPercent 100 (New 100 10)) = 100"
proof -
  have h: "1 \<le>s TotalLines (New 100 10) \<and> sint (TotalLines (New 100 10)) \<le> 92233720368547758"
    by (simp add: New_def word_sle_eq)
  have t: "TotalLines (New 100 10) = 100" by (simp add: New_def)
  have e1: "max 1 (sint (100::gint) * min 100 (max 1 (sint (50::gint))) div 100) = 50"
    by simp
  have e2: "max 1 (sint (100::gint) div 100) = 1"
    by simp
  from h jump_to_percent_line [of "New 100 10" 50]
  have "sint (Cursor (JumpToPercent 50 (New 100 10))) = 50
      \<and> Cursor (JumpToPercent 0 (New 100 10)) = Cursor (JumpToPercent 1 (New 100 10))
      \<and> sint (Cursor (JumpToPercent 0 (New 100 10))) = 1
      \<and> Cursor (JumpToPercent 100 (New 100 10)) = 100"
    unfolding t e1 e2 by blast
  with h show ?thesis by blast
qed

text \<open>
  C7 as stated fails in two places. With 1000 lines \<open>JumpToPercent(0)\<close> lands on line 10,
  not on line 1. With \<open>2^62\<close> lines the product \<open>totalLines * 100\<close> wraps to 0 and
  \<open>JumpToPercent(100)\<close> lands on line 1, not on the last line.
\<close>

theorem jump_to_percent_counterexample:
  "(1::gint) \<le>s 1000 \<and> Cursor (JumpToPercent 0 (New 1000 10)) = 10
   \<and> (1::gint) \<le>s 4611686018427387904
   \<and> Cursor (JumpToPercent 100 (New 4611686018427387904 10)) = 1"
  by code_simp

text \<open>
  C8, as the code has it. For every viewport with \<open>1 <= totalLines <= 92233720368547758\<close>
  and every \<open>p1 < p2\<close> in \<open>[1,100]\<close>, the cursor reached by \<open>JumpToPercent(p1)\<close> is at most
  the cursor reached by \<open>JumpToPercent(p2)\<close> from the same state.
\<close>

theorem percent_monotone:
  assumes "1 \<le>s TotalLines v" "sint (TotalLines v) \<le> 92233720368547758"
    and "1 \<le>s p1" "p1 <s p2" "p2 \<le>s 100"
  shows "Cursor (JumpToPercent p1 v) \<le>s Cursor (JumpToPercent p2 v)"
proof -
  from assms have t: "1 \<le> sint (TotalLines v)" by (simp add: word_sle_eq)
  from assms have p: "1 \<le> sint p1" "sint p1 < sint p2" "sint p2 \<le> 100"
    by (simp_all add: word_sle_eq word_sless_alt)
  have "sint (TotalLines v) * sint p1 div 100 \<le> sint (TotalLines v) * sint p2 div 100"
    using t p by (intro zdiv_mono1 mult_left_mono) simp_all
  then show ?thesis
    using p by (simp add: word_sle_eq JumpToPercent_cursor [OF t assms(2)])
qed

theorem percent_monotone_witness:
  "1 \<le>s TotalLines (New 100 10) \<and> sint (TotalLines (New 100 10)) \<le> 92233720368547758
   \<and> (1::gint) \<le>s 25 \<and> (25::gint) <s 75 \<and> (75::gint) \<le>s 100
   \<and> Cursor (JumpToPercent 25 (New 100 10)) \<le>s Cursor (JumpToPercent 75 (New 100 10))"
proof -
  have h1: "1 \<le>s TotalLines (New 100 10)" by (simp add: New_def word_sle_eq)
  have h2: "sint (TotalLines (New 100 10)) \<le> 92233720368547758" by (simp add: New_def)
  have h3: "(1::gint) \<le>s 25" by (simp add: word_sle_eq)
  have h4: "(25::gint) <s 75" by (simp add: word_sless_alt)
  have h5: "(75::gint) \<le>s 100" by (simp add: word_sle_eq)
  show ?thesis
    using h1 h2 h3 h4 h5 percent_monotone [OF h1 h2 h3 h4 h5] by blast
qed

text \<open>
  C8 as stated fails for very large line counts: with \<open>2^62\<close> lines \<open>JumpToPercent(1)\<close>
  lands on line 46116860184273879, while for \<open>JumpToPercent(2)\<close> the product wraps to a
  negative number and the cursor lands on line 1.
\<close>

theorem percent_monotone_counterexample:
  "(1::gint) \<le>s 4611686018427387904 \<and> (1::gint) \<le>s 1 \<and> (1::gint) <s 2 \<and> (2::gint) \<le>s 100
   \<and> Cursor (JumpToPercent 1 (New 4611686018427387904 10)) = 46116860184273879
   \<and> Cursor (JumpToPercent 2 (New 4611686018427387904 10)) = 1
   \<and> \<not> Cursor (JumpToPercent 1 (New 4611686018427387904 10))
          \<le>s Cursor (JumpToPercent 2 (New 4611686018427387904 10))"
  by code_simp



section \<open>Paging past the end\<close>


lemma PageDown_fields [simp]:
  "TotalLines (PageDown v) = TotalLines v" "Height (PageDown v) = Height v"
  by (simp_all add: PageDown_def Let_def)








section \<open>Frame of the scroll commands\<close>

text \<open>
  C10. For every viewport state, also one that violates the visibility invariant, and
  every \<open>n < 1\<close>, \<open>ScrollDown(n)\<close> and \<open>ScrollUp(n)\<close> return before the clamp step: the
  whole state (cursor, offset, height and total lines) is exactly unchanged.
\<close>

theorem scroll_nonpositive_unchanged:
  "n <s 1 \<Longrightarrow> ScrollDown n v = v \<and> ScrollUp n v = v"
  by (simp add: ScrollDown_def ScrollUp_def)

theorem scroll_nonpositive_unchanged_witness:
  "(0::gint) <s 1
   \<and> ScrollDown 0 \<lparr>TotalLines = 100, Height = 10, Cursor = 500, Offset = - 7\<rparr>
       = \<lparr>TotalLines = 100, Height = 10, Cursor = 500, Offset = - 7\<rparr>
   \<and> ScrollUp 0 \<lparr>TotalLines = 100, Height = 10, Cursor = 500, Offset = - 7\<rparr>
       = \<lparr>TotalLines = 100, Height = 10, Cursor = 500, Offset = - 7\<rparr>"
proof -
  have h: "(0::gint) <s 1" by (simp add: word_sless_alt)
  show ?thesis
    using h scroll_nonpositive_unchanged [OF h,
        of "\<lparr>TotalLines = 100, Height = 10, Cursor = 500, Offset = - 7\<rparr>"]
    by simp
qed


end
